theory Spec2Isabelle
  imports Main
begin

section \<open>Strings\<close>

text \<open>
  A Python \<open>str\<close> is a sequence of Unicode code points. A code point is a natural
  number here, and a string a list of them; \<open>py\<close> reads an ASCII literal.
\<close>

type_synonym codepoint = nat

type_synonym pystr = "codepoint list"

definition py :: "string \<Rightarrow> pystr" where
  "py s = map of_char s"

definition is_ascii :: "codepoint \<Rightarrow> bool" where
  "is_ascii c = (c < 128)"

definition ascii_upper :: "codepoint \<Rightarrow> bool" where
  "ascii_upper c = (65 \<le> c \<and> c \<le> 90)"

definition ascii_lower :: "codepoint \<Rightarrow> bool" where
  "ascii_lower c = (97 \<le> c \<and> c \<le> 122)"

text \<open>The regex class \<open>[A-Za-z]\<close> (the patterns are compiled without flags).\<close>

definition ascii_letter :: "codepoint \<Rightarrow> bool" where
  "ascii_letter c = (ascii_upper c \<or> ascii_lower c)"

definition ascii_digit :: "codepoint \<Rightarrow> bool" where
  "ascii_digit c = (48 \<le> c \<and> c \<le> 57)"

definition ascii_tolower :: "codepoint \<Rightarrow> codepoint" where
  "ascii_tolower c = (if ascii_upper c then c + 32 else c)"

definition ascii_toupper :: "codepoint \<Rightarrow> codepoint" where
  "ascii_toupper c = (if ascii_lower c then c - 32 else c)"

text \<open>
  The whitespace of \<open>str.isspace\<close> and of the regex class \<open>\s\<close> below 128:
  tab, line feed, vertical tab, form feed, carriage return, the four separators
  \<open>0x1C\<close> to \<open>0x1F\<close>, and the space.
\<close>

definition ascii_space :: "codepoint \<Rightarrow> bool" where
  "ascii_space c = ((9 \<le> c \<and> c \<le> 13) \<or> (28 \<le> c \<and> c \<le> 32))"

text \<open>
  The Unicode character database is part of the Python runtime, not of the repository.
  Everything it decides about a code point from 128 on, and the case conversion of a
  string that holds such a code point, is a parameter of the model: the theorems hold
  for every database.
\<close>

record unicode_db =
  u_isalpha :: "codepoint \<Rightarrow> bool"
  u_isupper :: "codepoint \<Rightarrow> bool"
  u_islower :: "codepoint \<Rightarrow> bool"
  u_istitle :: "codepoint \<Rightarrow> bool"
  u_isspace :: "codepoint \<Rightarrow> bool"
  u_lower :: "pystr \<Rightarrow> pystr"
  u_upper :: "pystr \<Rightarrow> pystr"

definition cp_isalpha :: "unicode_db \<Rightarrow> codepoint \<Rightarrow> bool" where
  "cp_isalpha U c = (if is_ascii c then ascii_letter c else u_isalpha U c)"

definition cp_isupper :: "unicode_db \<Rightarrow> codepoint \<Rightarrow> bool" where
  "cp_isupper U c = (if is_ascii c then ascii_upper c else u_isupper U c)"

definition cp_islower :: "unicode_db \<Rightarrow> codepoint \<Rightarrow> bool" where
  "cp_islower U c = (if is_ascii c then ascii_lower c else u_islower U c)"

definition cp_istitle :: "unicode_db \<Rightarrow> codepoint \<Rightarrow> bool" where
  "cp_istitle U c = (if is_ascii c then False else u_istitle U c)"

definition cp_isspace :: "unicode_db \<Rightarrow> codepoint \<Rightarrow> bool" where
  "cp_isspace U c = (if is_ascii c then ascii_space c else u_isspace U c)"

text \<open>\<open>str.isalpha\<close>: every character is alphabetic and there is at least one.\<close>

definition str_isalpha :: "unicode_db \<Rightarrow> pystr \<Rightarrow> bool" where
  "str_isalpha U s = (s \<noteq> [] \<and> list_all (cp_isalpha U) s)"

text \<open>
  \<open>str.isupper\<close>: a string of one character is upper when the character is; a longer
  one when no character is lowercase or titlecase and at least one is uppercase.
\<close>

definition str_isupper :: "unicode_db \<Rightarrow> pystr \<Rightarrow> bool" where
  "str_isupper U s =
     (case s of
        [c] \<Rightarrow> cp_isupper U c
      | _ \<Rightarrow> list_all (\<lambda>c. \<not> (cp_islower U c \<or> cp_istitle U c)) s \<and> list_ex (cp_isupper U) s)"

text \<open>\<open>str.lower\<close> and \<open>str.upper\<close>: bytewise on an ASCII string, the database's otherwise.\<close>

definition str_lower :: "unicode_db \<Rightarrow> pystr \<Rightarrow> pystr" where
  "str_lower U s = (if list_all is_ascii s then map ascii_tolower s else u_lower U s)"

definition str_upper :: "unicode_db \<Rightarrow> pystr \<Rightarrow> pystr" where
  "str_upper U s = (if list_all is_ascii s then map ascii_toupper s else u_upper U s)"

section \<open>Spelling variant dictionaries\<close>

text \<open>
  A \<open>dict\<close> keeps its items in insertion order: an association list with distinct
  keys. Storing under a key that is present replaces the value where the key stands;
  a new key goes to the end.
\<close>

type_synonym dict = "(pystr \<times> pystr) list"

fun dict_setitem :: "dict \<Rightarrow> pystr \<Rightarrow> pystr \<Rightarrow> dict" where
  "dict_setitem [] k v = [(k, v)]"
| "dict_setitem ((k', v') # d) k v =
     (if k' = k then (k, v) # d else (k', v') # dict_setitem d k v)"

text \<open>A dict display \<open>{k1: v1, k2: v2, ...}\<close> stores its items from left to right.\<close>

definition dict_display :: "(pystr \<times> pystr) list \<Rightarrow> dict" where
  "dict_display items = foldl (\<lambda>d (k, v). dict_setitem d k v) [] items"

text \<open>The items of \<open>_US_TO_UK\<close> as the source lists them: US spelling, UK spelling.\<close>

definition US_TO_UK_items :: "(string \<times> string) list" where
  "US_TO_UK_items =
    [
     \<comment> \<open>-or / -our\<close>
     (''color'', ''colour''), (''colors'', ''colours''), (''colored'', ''coloured''),
     (''coloring'', ''colouring''), (''colorful'', ''colourful''), (''favor'', ''favour''),
     (''favors'', ''favours''), (''favorite'', ''favourite''), (''favorites'', ''favourites''),
     (''flavor'', ''flavour''), (''flavors'', ''flavours''), (''honor'', ''honour''),
     (''honors'', ''honours''), (''honored'', ''honoured''), (''humor'', ''humour''),
     (''humors'', ''humours''), (''labor'', ''labour''), (''labors'', ''labours''),
     (''neighbor'', ''neighbour''), (''neighbors'', ''neighbours''), (''neighborhood'', ''neighbourhood''),
     (''rumor'', ''rumour''), (''rumors'', ''rumours''), (''savior'', ''saviour''),
     (''valor'', ''valour''), (''vigor'', ''vigour''), (''behavior'', ''behaviour''),
     (''behaviors'', ''behaviours''), (''endeavor'', ''endeavour''), (''endeavors'', ''endeavours''),
     \<comment> \<open>-ize / -ise\<close>
     (''organize'', ''organise''), (''organizes'', ''organises''), (''organized'', ''organised''),
     (''organizing'', ''organising''), (''organization'', ''organisation''), (''organizations'', ''organisations''),
     (''recognize'', ''recognise''), (''recognizes'', ''recognises''), (''recognized'', ''recognised''),
     (''recognizing'', ''recognising''), (''realize'', ''realise''), (''realizes'', ''realises''),
     (''realized'', ''realised''), (''realizing'', ''realising''), (''apologize'', ''apologise''),
     (''apologizes'', ''apologises''), (''apologized'', ''apologised''), (''apologizing'', ''apologising''),
     (''authorize'', ''authorise''), (''authorized'', ''authorised''), (''capitalize'', ''capitalise''),
     (''capitalized'', ''capitalised''), (''categorize'', ''categorise''), (''categorized'', ''categorised''),
     (''centralize'', ''centralise''), (''centralized'', ''centralised''), (''characterize'', ''characterise''),
     (''characterized'', ''characterised''), (''customize'', ''customise''), (''customized'', ''customised''),
     (''emphasize'', ''emphasise''), (''emphasized'', ''emphasised''), (''finalize'', ''finalise''),
     (''finalized'', ''finalised''), (''generalize'', ''generalise''), (''generalized'', ''generalised''),
     (''initialize'', ''initialise''), (''initialized'', ''initialised''), (''maximize'', ''maximise''),
     (''minimized'', ''minimised''), (''minimize'', ''minimise''), (''modernize'', ''modernise''),
     (''normalize'', ''normalise''), (''normalized'', ''normalised''), (''optimize'', ''optimise''),
     (''optimized'', ''optimised''), (''prioritize'', ''prioritise''), (''prioritized'', ''prioritised''),
     (''specialize'', ''specialise''), (''specialized'', ''specialised''), (''standardize'', ''standardise''),
     (''standardized'', ''standardised''), (''summarize'', ''summarise''), (''summarized'', ''summarised''),
     (''symbolize'', ''symbolise''), (''symbolized'', ''symbolised''), (''utilize'', ''utilise''),
     (''utilized'', ''utilised''), (''visualize'', ''visualise''), (''visualized'', ''visualised''),
     \<comment> \<open>-er / -re\<close>
     (''center'', ''centre''), (''centers'', ''centres''), (''centered'', ''centred''),
     (''fiber'', ''fibre''), (''fibers'', ''fibres''), (''liter'', ''litre''),
     (''liters'', ''litres''), (''meter'', ''metre''), (''meters'', ''metres''),
     (''theater'', ''theatre''), (''theaters'', ''theatres''),
     \<comment> \<open>-og / -ogue\<close>
     (''analog'', ''analogue''), (''catalog'', ''catalogue''), (''dialog'', ''dialogue''),
     (''monolog'', ''monologue''),
     \<comment> \<open>-ense / -ence\<close>
     (''defense'', ''defence''), (''offense'', ''offence''), (''license'', ''licence''),
     (''pretense'', ''pretence''),
     \<comment> \<open>-l- / -ll-\<close>
     (''traveling'', ''travelling''), (''traveled'', ''travelled''), (''traveler'', ''traveller''),
     (''travelers'', ''travellers''), (''canceled'', ''cancelled''), (''canceling'', ''cancelling''),
     (''counselor'', ''counsellor''), (''counselors'', ''counsellors''), (''enrollment'', ''enrolment''),
     (''fulfillment'', ''fulfilment''), (''modeling'', ''modelling''), (''modeled'', ''modelled''),
     (''signaling'', ''signalling''), (''signaled'', ''signalled''),
     \<comment> \<open>misc\<close>
     (''program'', ''programme''), (''programs'', ''programmes''), (''programmed'', ''programmed''),
     (''gray'', ''grey''), (''grays'', ''greys''), (''tire'', ''tyre''),
     (''tires'', ''tyres''), (''airplane'', ''aeroplane''), (''airplanes'', ''aeroplanes''),
     (''artifact'', ''artefact''), (''artifacts'', ''artefacts''), (''check'', ''cheque''),
     (''checks'', ''cheques''), (''curb'', ''kerb''), (''curbs'', ''kerbs''),
     (''draft'', ''draught''), (''drafts'', ''draughts''), (''jewelry'', ''jewellery''),
     (''pajamas'', ''pyjamas''), (''plow'', ''plough''), (''plows'', ''ploughs''),
     (''skeptic'', ''sceptic''), (''skeptical'', ''sceptical''), (''skepticism'', ''scepticism'')
    ]"

definition US_TO_UK :: dict where
  "US_TO_UK = dict_display (map (\<lambda>(k, v). (py k, py v)) US_TO_UK_items)"

text \<open>\<open>_UK_TO_US = {v: k for k, v in _US_TO_UK.items()}\<close>\<close>

definition invert_dict :: "dict \<Rightarrow> dict" where
  "invert_dict d = foldl (\<lambda>r (k, v). dict_setitem r v k) [] d"

definition UK_TO_US :: dict where
  "UK_TO_US = invert_dict US_TO_UK"

definition US_WORDS :: "pystr set" where
  "US_WORDS = set (map fst US_TO_UK)"

definition UK_WORDS :: "pystr set" where
  "UK_WORDS = set (map fst UK_TO_US)"

section \<open>The token pattern\<close>

text \<open>
  \<open>_TOKEN_RE = ([A-Za-z]+|[^A-Za-z]+)\<close>. At a letter the first alternative takes the
  whole run of letters; at any other character the second takes the whole run of
  non-letters. \<open>finditer\<close> resumes where the match ended; each match is paired with
  its start offset.
\<close>

function TOKEN_RE_finditer_from :: "nat \<Rightarrow> pystr \<Rightarrow> (nat \<times> pystr) list" where
  "TOKEN_RE_finditer_from pos [] = []"
| "TOKEN_RE_finditer_from pos (c # s) =
     (if ascii_letter c
      then (pos, c # takeWhile ascii_letter s)
             # TOKEN_RE_finditer_from (pos + Suc (length (takeWhile ascii_letter s)))
                 (dropWhile ascii_letter s)
      else (pos, c # takeWhile (\<lambda>x. \<not> ascii_letter x) s)
             # TOKEN_RE_finditer_from
                 (pos + Suc (length (takeWhile (\<lambda>x. \<not> ascii_letter x) s)))
                 (dropWhile (\<lambda>x. \<not> ascii_letter x) s))"
  by pat_completeness auto
termination
  by (relation "measure (\<lambda>(pos, s). length s)")
     (auto simp: length_dropWhile_le less_Suc_eq_le)

definition TOKEN_RE_finditer :: "pystr \<Rightarrow> (nat \<times> pystr) list" where
  "TOKEN_RE_finditer text = TOKEN_RE_finditer_from 0 text"

section \<open>The URL and email pattern\<close>

text \<open>
  A matcher takes the text from the position it tries and returns what is left after
  the match, or \<open>None\<close>. The pattern has no anchor and no look-behind, so a match
  depends on nothing before that position.
\<close>

definition lit :: "pystr \<Rightarrow> pystr \<Rightarrow> pystr option" where
  "lit p s = (if take (length p) s = p then Some (drop (length p) s) else None)"

text \<open>\<open>[...]+\<close> where nothing of the same class can follow: the whole run, at least one.\<close>

definition plus_class :: "(codepoint \<Rightarrow> bool) \<Rightarrow> pystr \<Rightarrow> pystr option" where
  "plus_class P s = (if takeWhile P s = [] then None else Some (dropWhile P s))"

definition non_space :: "unicode_db \<Rightarrow> codepoint \<Rightarrow> bool" where
  "non_space U c = (\<not> cp_isspace U c)"

text \<open>\<open>://[^\s]+\<close>\<close>

definition http_tail :: "unicode_db \<Rightarrow> pystr \<Rightarrow> pystr option" where
  "http_tail U s =
     (case lit (py ''://'') s of None \<Rightarrow> None | Some r \<Rightarrow> plus_class (non_space U) r)"

text \<open>\<open>https?://[^\s]+\<close>: the optional \<open>s\<close> is tried taken first, then left out.\<close>

definition match_http :: "unicode_db \<Rightarrow> pystr \<Rightarrow> pystr option" where
  "match_http U s =
     (case lit (py ''http'') s of
        None \<Rightarrow> None
      | Some r \<Rightarrow>
          (case (case lit (py ''s'') r of None \<Rightarrow> None | Some r' \<Rightarrow> http_tail U r') of
             Some e \<Rightarrow> Some e
           | None \<Rightarrow> http_tail U r))"

text \<open>\<open>www\.[^\s]+\<close>\<close>

definition match_www :: "unicode_db \<Rightarrow> pystr \<Rightarrow> pystr option" where
  "match_www U s =
     (case lit (py ''www.'') s of None \<Rightarrow> None | Some r \<Rightarrow> plus_class (non_space U) r)"

text \<open>The classes \<open>[a-zA-Z0-9._%+-]\<close> and \<open>[a-zA-Z0-9.-]\<close>.\<close>

definition email_local :: "codepoint \<Rightarrow> bool" where
  "email_local c = (ascii_letter c \<or> ascii_digit c \<or> c \<in> set (py ''._%+-''))"

definition email_domain :: "codepoint \<Rightarrow> bool" where
  "email_domain c = (ascii_letter c \<or> ascii_digit c \<or> c \<in> set (py ''.-''))"

text \<open>\<open>\.[a-zA-Z]{2,}\<close> at the end of the pattern: a dot and the whole run of letters.\<close>

definition email_tld :: "pystr \<Rightarrow> pystr option" where
  "email_tld s =
     (case lit (py ''.'') s of
        None \<Rightarrow> None
      | Some r \<Rightarrow> if 2 \<le> length (takeWhile ascii_letter r) then Some (dropWhile ascii_letter r) else None)"

text \<open>
  \<open>[a-zA-Z0-9.-]+\<close> before \<open>\.[a-zA-Z]{2,}\<close> backtracks: it takes \<open>k\<close> characters,
  the longest run first, and gives one back while the rest of the pattern fails.
\<close>

fun email_domain_try :: "nat \<Rightarrow> pystr \<Rightarrow> pystr option" where
  "email_domain_try 0 s = None"
| "email_domain_try (Suc k) s =
     (case email_tld (drop (Suc k) s) of Some r \<Rightarrow> Some r | None \<Rightarrow> email_domain_try k s)"

text \<open>
  \<open>[a-zA-Z0-9._%+-]+@[a-zA-Z0-9.-]+\.[a-zA-Z]{2,}\<close>. The first class does not hold
  \<open>@\<close>, so only its whole run can be followed by the \<open>@\<close>.
\<close>

definition match_email :: "pystr \<Rightarrow> pystr option" where
  "match_email s =
     (case plus_class email_local s of
        None \<Rightarrow> None
      | Some r \<Rightarrow>
          (case lit (py ''@'') r of
             None \<Rightarrow> None
           | Some r' \<Rightarrow> email_domain_try (length (takeWhile email_domain r')) r'))"

text \<open>\<open>_URL_RE\<close>: the three alternatives in order, the first that matches wins.\<close>

definition URL_RE_match :: "unicode_db \<Rightarrow> pystr \<Rightarrow> pystr option" where
  "URL_RE_match U s =
     (case match_http U s of
        Some r \<Rightarrow> Some r
      | None \<Rightarrow> (case match_www U s of Some r \<Rightarrow> Some r | None \<Rightarrow> match_email s))"

text \<open>
  \<open>_URL_RE.finditer(text)\<close> as the list of \<open>(m.start(), m.end())\<close>: the scan tries
  each position from the left and resumes where a match ended. The pattern matches no
  empty string; were a match empty, the scan would report it and move on by one
  character.
\<close>

function URL_RE_finditer_from :: "unicode_db \<Rightarrow> nat \<Rightarrow> pystr \<Rightarrow> (nat \<times> nat) list" where
  "URL_RE_finditer_from U pos [] = []"
| "URL_RE_finditer_from U pos (c # s) =
     (case URL_RE_match U (c # s) of
        None \<Rightarrow> URL_RE_finditer_from U (Suc pos) s
      | Some r \<Rightarrow>
          if length r < length (c # s)
          then (pos, pos + (length (c # s) - length r))
                 # URL_RE_finditer_from U (pos + (length (c # s) - length r)) r
          else (pos, pos) # URL_RE_finditer_from U (Suc pos) s)"
  by pat_completeness auto
termination
  by (relation "measure (\<lambda>(U, pos, s). length s)") auto

definition URL_RE_finditer :: "unicode_db \<Rightarrow> pystr \<Rightarrow> (nat \<times> nat) list" where
  "URL_RE_finditer U text = URL_RE_finditer_from U 0 text"

section \<open>The corrector\<close>

datatype change_type = Spelling | Grammar | Punctuation

record change =
  change_type :: change_type
  change_original :: pystr
  change_replacement :: pystr

datatype py_error = IndexError | KeyError

text \<open>
  \<open>_match_case\<close>. \<open>original[0]\<close> and \<open>replacement[0]\<close> raise \<open>IndexError\<close> on an
  empty string; \<open>replacement[1:]\<close> is the rest.
\<close>

definition match_case :: "unicode_db \<Rightarrow> pystr \<Rightarrow> pystr \<Rightarrow> py_error + pystr" where
  "match_case U original replacement =
     (if str_isupper U original then Inr (str_upper U replacement)
      else
        (case original of
           [] \<Rightarrow> Inl IndexError
         | o0 # _ \<Rightarrow>
             if str_isupper U [o0]
             then (case replacement of
                     [] \<Rightarrow> Inl IndexError
                   | r0 # rest \<Rightarrow> Inr (str_upper U [r0] @ rest))
             else Inr replacement))"

text \<open>\<open>any(s <= start < e for s, e in url_spans)\<close>\<close>

definition in_url :: "(nat \<times> nat) list \<Rightarrow> nat \<Rightarrow> bool" where
  "in_url url_spans start = list_ex (\<lambda>(s, e). s \<le> start \<and> start < e) url_spans"

text \<open>
  The body of the loop over the token matches: the changes and the result parts so
  far go in, and come out extended. \<open>mapping[lower]\<close> raises \<open>KeyError\<close> when the
  key is missing.
\<close>

definition convert_token ::
  "unicode_db \<Rightarrow> dict \<Rightarrow> pystr set \<Rightarrow> (nat \<times> nat) list \<Rightarrow> nat \<times> pystr
     \<Rightarrow> change list \<times> pystr list \<Rightarrow> py_error + (change list \<times> pystr list)" where
  "convert_token U mapping source_words url_spans token_match st =
     (case token_match of (start, token) \<Rightarrow>
      case st of (changes, result_parts) \<Rightarrow>
        if in_url url_spans start \<or> \<not> str_isalpha U token
        then Inr (changes, result_parts @ [token])
        else
          let lower = str_lower U token in
          if lower \<in> source_words
          then
            (case map_of mapping lower of
               None \<Rightarrow> Inl KeyError
             | Some replacement \<Rightarrow>
                 (case match_case U token replacement of
                    Inl e \<Rightarrow> Inl e
                  | Inr replacement' \<Rightarrow>
                      if replacement' \<noteq> token
                      then Inr (changes @ [\<lparr>change_type = Spelling, change_original = token,
                                             change_replacement = replacement'\<rparr>],
                                result_parts @ [replacement'])
                      else Inr (changes, result_parts @ [token])))
          else Inr (changes, result_parts @ [token]))"

fun convert_loop ::
  "unicode_db \<Rightarrow> dict \<Rightarrow> pystr set \<Rightarrow> (nat \<times> nat) list \<Rightarrow> (nat \<times> pystr) list
     \<Rightarrow> change list \<times> pystr list \<Rightarrow> py_error + (change list \<times> pystr list)" where
  "convert_loop U mapping source_words url_spans [] st = Inr st"
| "convert_loop U mapping source_words url_spans (token_match # rest) st =
     (case convert_token U mapping source_words url_spans token_match st of
        Inl e \<Rightarrow> Inl e
      | Inr st' \<Rightarrow> convert_loop U mapping source_words url_spans rest st')"

text \<open>The head of \<open>_convert_variant\<close>: \<open>mapping\<close> and \<open>source_words\<close> by the variant.\<close>

definition direction :: "pystr \<Rightarrow> dict \<times> pystr set" where
  "direction variant =
     (if variant = py ''uk'' then (US_TO_UK, US_WORDS) else (UK_TO_US, UK_WORDS))"

text \<open>\<open>_convert_variant\<close>: the corrected text and the spelling changes.\<close>

definition convert_variant ::
  "unicode_db \<Rightarrow> pystr \<Rightarrow> pystr \<Rightarrow> py_error + (pystr \<times> change list)" where
  "convert_variant U text variant =
     (let (mapping, source_words) = direction variant;
          url_spans = URL_RE_finditer U text
      in case convert_loop U mapping source_words url_spans (TOKEN_RE_finditer text) ([], []) of
           Inl e \<Rightarrow> Inl e
         | Inr (changes, result_parts) \<Rightarrow> Inr (concat result_parts, changes))"

section \<open>Auxiliary definitions for the statements\<close>

text \<open>
  What one pass of the loop body adds to an empty state: the changes it records and
  the parts it emits for one token match.
\<close>

definition token_changes ::
  "unicode_db \<Rightarrow> dict \<Rightarrow> pystr set \<Rightarrow> (nat \<times> nat) list \<Rightarrow> nat \<times> pystr \<Rightarrow> change list" where
  "token_changes U mapping source_words url_spans token_match =
     (case convert_token U mapping source_words url_spans token_match ([], []) of
        Inl e \<Rightarrow> []
      | Inr (changes, result_parts) \<Rightarrow> changes)"

definition token_parts ::
  "unicode_db \<Rightarrow> dict \<Rightarrow> pystr set \<Rightarrow> (nat \<times> nat) list \<Rightarrow> nat \<times> pystr \<Rightarrow> pystr list" where
  "token_parts U mapping source_words url_spans token_match =
     (case convert_token U mapping source_words url_spans token_match ([], []) of
        Inl e \<Rightarrow> []
      | Inr (changes, result_parts) \<Rightarrow> result_parts)"

text \<open>The list \<open>result_parts\<close> of \<open>_convert_variant\<close> before it is joined.\<close>

definition result_parts :: "unicode_db \<Rightarrow> pystr \<Rightarrow> pystr \<Rightarrow> pystr list" where
  "result_parts U text variant =
     (let (mapping, source_words) = direction variant;
          url_spans = URL_RE_finditer U text
      in concat (map (token_parts U mapping source_words url_spans) (TOKEN_RE_finditer text)))"

text \<open>Every recorded change with the start offset of the token it was recorded for.\<close>

definition located_changes :: "unicode_db \<Rightarrow> pystr \<Rightarrow> pystr \<Rightarrow> (nat \<times> change) list" where
  "located_changes U text variant =
     (let (mapping, source_words) = direction variant;
          url_spans = URL_RE_finditer U text
      in concat (map (\<lambda>token_match.
                        map (Pair (fst token_match))
                          (token_changes U mapping source_words url_spans token_match))
                   (TOKEN_RE_finditer text)))"

text \<open>
  What the loop relies on: every source word is a key of the mapping, and no value of
  the mapping is empty.
\<close>

definition dict_ready :: "dict \<Rightarrow> pystr set \<Rightarrow> bool" where
  "dict_ready mapping source_words =
     (source_words \<subseteq> set (map fst mapping) \<and> (\<forall>v \<in> set (map snd mapping). v \<noteq> []))"

text \<open>
  The casing rule in the spec's words, for a token of ASCII letters: an original that
  is entirely uppercase gives the replacement uppercased; else an original whose first
  character is uppercase gives the replacement with only its first character
  uppercased; else the replacement as it is.
\<close>

definition spec_case_projection :: "unicode_db \<Rightarrow> pystr \<Rightarrow> pystr \<Rightarrow> pystr" where
  "spec_case_projection U original replacement =
     (if list_all ascii_upper original then str_upper U replacement
      else if ascii_upper (hd original) then str_upper U [hd replacement] @ tl replacement
      else replacement)"

text \<open>
  The module-level statement that builds \<open>_UK_TO_US\<close>, for any forward table. The
  comprehension stores each value as a key; nothing in it raises.
\<close>

definition build_reverse_table :: "dict \<Rightarrow> py_error + dict" where
  "build_reverse_table forward = Inr (invert_dict forward)"

section \<open>Auxiliary definitions for the idempotence proof\<close>



text \<open>
  A word that the URL pattern cannot tell from another such word: at least two ASCII
  letters, not ending in \<open>http\<close>, \<open>https\<close> or \<open>www\<close>.
\<close>

definition ends_with :: "pystr \<Rightarrow> pystr \<Rightarrow> bool" where
  "ends_with p t = (length p \<le> length t \<and> drop (length t - length p) t = p)"

definition inert :: "pystr \<Rightarrow> bool" where
  "inert t =
     (2 \<le> length t \<and> list_all ascii_letter t
      \<and> \<not> ends_with (py ''http'') t \<and> \<not> ends_with (py ''https'') t
      \<and> \<not> ends_with (py ''www'') t)"



text \<open>
  Where a match attempted in \<open>a @ t @ b\<close> ends, for a word \<open>t\<close>: nowhere, before the
  word (what is left of \<open>a\<close>), or after it (what is left of \<open>b\<close>).
\<close>

datatype residue = Fail | Within pystr | Beyond pystr

fun residue_result :: "pystr \<Rightarrow> pystr \<Rightarrow> residue \<Rightarrow> pystr option" where
  "residue_result t b Fail = None"
| "residue_result t b (Within a2) = Some (a2 @ t @ b)"
| "residue_result t b (Beyond b2) = Some b2"

fun residue_of :: "pystr \<Rightarrow> pystr \<Rightarrow> residue \<Rightarrow> bool" where
  "residue_of a b Fail = True"
| "residue_of a b (Within a2) = (a2 \<noteq> [] \<and> (\<exists>a1. a = a1 @ a2))"
| "residue_of a b (Beyond b2) = (\<exists>b1. b = b1 @ b2)"

definition blockwise :: "(pystr \<Rightarrow> pystr option) \<Rightarrow> pystr \<Rightarrow> pystr \<Rightarrow> bool" where
  "blockwise f a b =
     (\<exists>res. residue_of a b res \<and> (\<forall>t. inert t \<longrightarrow> f (a @ t @ b) = residue_result t b res))"

text \<open>
  Token texts: each a non-empty run of letters or of non-letters, and neighbours of
  different kinds. The flag of each part is the mask at its first position.
\<close>

definition homogeneous :: "pystr \<Rightarrow> bool" where
  "homogeneous p = (p \<noteq> [] \<and> (list_all ascii_letter p \<or> list_all (\<lambda>c. \<not> ascii_letter c) p))"






text \<open>A word as a number (its bytes, the first the lowest), to tell words apart by arithmetic.\<close>

definition word_code :: "string \<Rightarrow> nat" where
  "word_code s = foldr (\<lambda>c h. of_char c + 256 * h) s 0"

section \<open>The dictionaries as built\<close>

lemma inj_py: "py a = py b \<longleftrightarrow> a = b"
  unfolding py_def by (simp add: inj_map_eq_map inj_on_def)

lemma fst_dict_setitem: "map fst (dict_setitem d k v) = (if k \<in> set (map fst d) then map fst d else map fst d @ [k])"
  by (induction d k v rule: dict_setitem.induct) auto

lemma dict_setitem_new: "k \<notin> set (map fst d) \<Longrightarrow> dict_setitem d k v = d @ [(k, v)]"
  by (induction d k v rule: dict_setitem.induct) auto

lemma foldl_setitem_distinct:
  "distinct (map fst (acc @ xs)) \<Longrightarrow> foldl (\<lambda>d (k, v). dict_setitem d k v) acc xs = acc @ xs"
proof (induction xs arbitrary: acc)
  case Nil
  then show ?case by simp
next
  case (Cons x xs)
  obtain k v where x: "x = (k, v)" by (cases x)
  from Cons.prems have "k \<notin> set (map fst acc)" by (auto simp: x)
  then have "dict_setitem acc k v = acc @ [(k, v)]" by (rule dict_setitem_new)
  moreover from Cons.prems have "distinct (map fst ((acc @ [(k, v)]) @ xs))" by (simp add: x)
  ultimately show ?case using Cons.IH [of "acc @ [(k, v)]"] by (simp add: x)
qed

lemma dict_display_distinct: "distinct (map fst xs) \<Longrightarrow> dict_display xs = xs"
  unfolding dict_display_def using foldl_setitem_distinct [of "[]" xs] by simp

lemma invert_dict_distinct:
  assumes d: "distinct (map snd d)"
  shows "invert_dict d = map (\<lambda>(k, v). (v, k)) d"
proof -
  have "foldl (\<lambda>r (k, v). dict_setitem r v k) acc xs
        = foldl (\<lambda>d (k, v). dict_setitem d k v) acc (map (\<lambda>(k, v). (v, k)) xs)" for acc xs
    by (induction xs arbitrary: acc) (auto split: prod.splits)
  then have inv: "invert_dict d = dict_display (map (\<lambda>(k, v). (v, k)) d)"
    by (simp add: invert_dict_def dict_display_def)
  have eq: "map fst (map (\<lambda>(k, v). (v, k)) d) = map snd d"
    by (induction d) auto
  have "distinct (map fst (map (\<lambda>(k, v). (v, k)) d))"
    unfolding eq by (rule d)
  then have "dict_display (map (\<lambda>(k, v). (v, k)) d) = map (\<lambda>(k, v). (v, k)) d"
    by (rule dict_display_distinct)
  with inv show ?thesis by simp
qed

lemma items_codes_distinct:
  "distinct (map word_code
     (map fst US_TO_UK_items @ map snd (filter (\<lambda>(k, v). v \<noteq> k) US_TO_UK_items)))"
  unfolding US_TO_UK_items_def by (simp add: word_code_def)

lemma items_value_codes_distinct: "distinct (map word_code (map snd US_TO_UK_items))"
  unfolding US_TO_UK_items_def by (simp add: word_code_def)

lemma distinct_mapD: "distinct (map f xs) \<Longrightarrow> distinct xs"
  unfolding distinct_map by (rule conjunct1)

lemma items_keys_distinct: "distinct (map fst US_TO_UK_items)"
proof -
  from items_codes_distinct
  have "distinct (map fst US_TO_UK_items @ map snd (filter (\<lambda>(k, v). v \<noteq> k) US_TO_UK_items))"
    by (rule distinct_mapD)
  then show ?thesis
    unfolding distinct_append by (rule conjunct1)
qed

lemma items_values_distinct: "distinct (map snd US_TO_UK_items)"
  using items_value_codes_distinct by (rule distinct_mapD)




lemma distinct_map_py: "distinct xs \<Longrightarrow> distinct (map py xs)"
  by (simp add: distinct_map inj_on_def inj_py)

lemma US_TO_UK_eq: "US_TO_UK = map (\<lambda>(k, v). (py k, py v)) US_TO_UK_items"
proof -
  have eq: "map fst (map (\<lambda>(k, v). (py k, py v)) xs) = map py (map fst xs)" for xs
    by (induction xs) auto
  have "distinct (map fst (map (\<lambda>(k, v). (py k, py v)) US_TO_UK_items))"
    unfolding eq by (rule distinct_map_py [OF items_keys_distinct])
  then show ?thesis unfolding US_TO_UK_def by (rule dict_display_distinct)
qed

lemma UK_TO_US_eq: "UK_TO_US = map (\<lambda>(k, v). (py v, py k)) US_TO_UK_items"
proof -
  have eq: "map snd (map (\<lambda>(k, v). (py k, py v)) xs) = map py (map snd xs)" for xs
    by (induction xs) auto
  have "distinct (map snd US_TO_UK)"
    unfolding US_TO_UK_eq eq by (rule distinct_map_py [OF items_values_distinct])
  then have "invert_dict US_TO_UK = map (\<lambda>(k, v). (v, k)) US_TO_UK"
    by (rule invert_dict_distinct)
  moreover have "map (\<lambda>(k, v). (v, k)) (map (\<lambda>(k, v). (py k, py v)) xs)
                 = map (\<lambda>(k, v). (py v, py k)) xs" for xs
    by (induction xs) auto
  ultimately show ?thesis unfolding UK_TO_US_def by (simp only: US_TO_UK_eq)
qed

section \<open>Tokenization is lossless\<close>

lemma concat_tokens_from:
  "concat (map snd (TOKEN_RE_finditer_from pos s)) = s"
  by (induction pos s rule: TOKEN_RE_finditer_from.induct) simp_all

text \<open>
  C2. For every input string, the texts of the token matches, concatenated in order,
  are the input string: no character is dropped or duplicated.
\<close>

theorem tokenization_lossless:
  "concat (map snd (TOKEN_RE_finditer text)) = text"
  unfolding TOKEN_RE_finditer_def by (rule concat_tokens_from)

section \<open>The loop, token by token\<close>

lemma convert_token_acc:
  "convert_token U mp w sp m (cs, ps) =
     (case convert_token U mp w sp m ([], []) of
        Inl e \<Rightarrow> Inl e
      | Inr (c, p) \<Rightarrow> Inr (cs @ c, ps @ p))"
  by (cases m) (simp add: convert_token_def Let_def split: option.splits sum.splits)

lemma convert_loop_acc:
  "convert_loop U mp w sp ms (cs, ps) =
     (case convert_loop U mp w sp ms ([], []) of
        Inl e \<Rightarrow> Inl e
      | Inr (c, p) \<Rightarrow> Inr (cs @ c, ps @ p))"
proof (induction ms arbitrary: cs ps)
  case Nil
  then show ?case by simp
next
  case (Cons m ms)
  show ?case
  proof (cases "convert_token U mp w sp m ([], [])")
    case (Inl e)
    then show ?thesis using convert_token_acc [of U mp w sp m cs ps] by simp
  next
    case (Inr st)
    obtain c p where st: "st = (c, p)" by (cases st)
    have 1: "convert_token U mp w sp m (cs, ps) = Inr (cs @ c, ps @ p)"
      using Inr convert_token_acc [of U mp w sp m cs ps] by (simp add: st)
    show ?thesis
      using Cons.IH [of "cs @ c" "ps @ p"] Cons.IH [of c p] Inr 1
      by (simp add: st split: sum.splits)
  qed
qed

lemma match_case_ok:
  "original \<noteq> [] \<Longrightarrow> replacement \<noteq> [] \<Longrightarrow> \<exists>r. match_case U original replacement = Inr r"
  by (cases original; cases replacement) (simp_all add: match_case_def)

lemma convert_token_ok:
  assumes "dict_ready mp w"
  shows "\<exists>c p. convert_token U mp w sp m ([], []) = Inr (c, [p]) \<and> length c \<le> 1"
proof -
  obtain start token where m: "m = (start, token)" by (cases m)
  show ?thesis
  proof (cases "in_url sp start \<or> \<not> str_isalpha U token \<or> str_lower U token \<notin> w")
    case True
    then show ?thesis by (auto simp: convert_token_def m Let_def)
  next
    case False
    then have tok: "token \<noteq> []" and low: "str_lower U token \<in> w"
      by (auto simp: str_isalpha_def)
    from low assms have "str_lower U token \<in> fst ` set mp"
      by (auto simp: dict_ready_def)
    then obtain r where r: "map_of mp (str_lower U token) = Some r"
      by (cases "map_of mp (str_lower U token)") (auto simp: map_of_eq_None_iff)
    then have "(str_lower U token, r) \<in> set mp"
      by (rule map_of_SomeD)
    then have "r \<in> set (map snd mp)"
      by force
    with assms have "r \<noteq> []" by (auto simp: dict_ready_def)
    with tok obtain r' where "match_case U token r = Inr r'"
      using match_case_ok by blast
    with False r show ?thesis by (simp add: convert_token_def m Let_def)
  qed
qed

lemma convert_loop_eq:
  assumes "dict_ready mp w"
  shows "convert_loop U mp w sp ms ([], []) =
           Inr (concat (map (token_changes U mp w sp) ms), concat (map (token_parts U mp w sp) ms))"
proof (induction ms)
  case Nil
  then show ?case by simp
next
  case (Cons m ms)
  from convert_token_ok [OF assms, of U sp m]
  obtain c p where tok: "convert_token U mp w sp m ([], []) = Inr (c, [p])" by blast
  then have tc: "token_changes U mp w sp m = c" and tp: "token_parts U mp w sp m = [p]"
    by (simp_all add: token_changes_def token_parts_def)
  show ?case
    using convert_loop_acc [of U mp w sp ms c "[p]"] Cons.IH tok
    by (simp add: tc tp)
qed

lemma token_parts_single:
  "dict_ready mp w \<Longrightarrow> \<exists>p. token_parts U mp w sp m = [p]"
  using convert_token_ok [of mp w U sp m] by (auto simp: token_parts_def)

lemma token_changes_short:
  "dict_ready mp w \<Longrightarrow> length (token_changes U mp w sp m) \<le> 1"
  using convert_token_ok [of mp w U sp m] by (auto simp: token_changes_def)

lemma items_nonempty: "\<forall>(k, v) \<in> set US_TO_UK_items. k \<noteq> [] \<and> v \<noteq> []"
  unfolding US_TO_UK_items_def by simp

lemma py_Nil: "py k = [] \<longleftrightarrow> k = []"
  by (simp add: py_def)

lemma direction_ready: "dict_ready (fst (direction variant)) (snd (direction variant))"
  using items_nonempty
  by (auto simp: direction_def dict_ready_def US_WORDS_def UK_WORDS_def US_TO_UK_eq UK_TO_US_eq py_Nil)

lemma convert_variant_eq:
  "convert_variant U text variant =
     Inr (concat (result_parts U text variant), map snd (located_changes U text variant))"
proof -
  obtain mp w where d: "direction variant = (mp, w)" by (cases "direction variant")
  with direction_ready [of variant] have r: "dict_ready mp w" by simp
  have "map snd (concat (map (\<lambda>m. map (Pair (fst m)) (f m)) ms)) = concat (map f ms)" for f :: "nat \<times> pystr \<Rightarrow> change list" and ms
    by (induction ms) (simp_all add: comp_def)
  then show ?thesis
    by (simp add: convert_variant_def result_parts_def located_changes_def d convert_loop_eq [OF r])
qed

section \<open>Concrete evaluation, offsets and protected tokens\<close>

subsection \<open>Evaluation on concrete inputs\<close>

lemmas class_defs = is_ascii_def ascii_upper_def ascii_lower_def ascii_letter_def ascii_digit_def
  ascii_tolower_def ascii_toupper_def ascii_space_def cp_isalpha_def cp_isupper_def cp_islower_def
  cp_istitle_def cp_isspace_def non_space_def email_local_def email_domain_def

lemmas url_defs = URL_RE_finditer_def URL_RE_match_def match_http_def match_www_def match_email_def
  http_tail_def lit_def plus_class_def email_tld_def

lemmas conv_defs = convert_variant_def direction_def convert_token_def match_case_def in_url_def
  str_isalpha_def str_isupper_def str_lower_def str_upper_def US_WORDS_def UK_WORDS_def Let_def

lemmas eval_defs = conv_defs url_defs TOKEN_RE_finditer_def class_defs
  US_TO_UK_eq UK_TO_US_eq US_TO_UK_items_def py_def

subsection \<open>Offsets of the token matches\<close>

lemma token_starts_ge: "m \<in> set (TOKEN_RE_finditer_from pos s) \<Longrightarrow> pos \<le> fst m"
  by (induction pos s arbitrary: m rule: TOKEN_RE_finditer_from.induct)
     (fastforce split: if_splits)+

lemma token_starts_sorted: "sorted_wrt (<) (map fst (TOKEN_RE_finditer_from pos s))"
  by (induction pos s rule: TOKEN_RE_finditer_from.induct)
     (auto dest!: token_starts_ge)

lemma tokens_nonempty_from: "m \<in> set (TOKEN_RE_finditer_from pos s) \<Longrightarrow> snd m \<noteq> []"
  by (induction pos s arbitrary: m rule: TOKEN_RE_finditer_from.induct)
     (fastforce split: if_splits)+

subsection \<open>Tokens inside a span\<close>

lemma token_parts_in_url:
  "in_url sp start \<Longrightarrow> token_parts U mp w sp (start, token) = [token]"
  by (simp add: token_parts_def convert_token_def)

lemma token_changes_in_url:
  "in_url sp start \<Longrightarrow> token_changes U mp w sp (start, token) = []"
  by (simp add: token_changes_def convert_token_def)

lemma concat_singletons:
  "\<forall>x \<in> set xs. \<exists>p. f x = [p] \<Longrightarrow> concat (map f xs) = map (\<lambda>x. hd (f x)) xs"
  by (induction xs) auto

lemma result_parts_map:
  "result_parts U text variant =
     map (\<lambda>m. hd (token_parts U (fst (direction variant)) (snd (direction variant))
                    (URL_RE_finditer U text) m))
       (TOKEN_RE_finditer text)"
proof -
  have "\<forall>m \<in> set (TOKEN_RE_finditer text).
          \<exists>p. token_parts U (fst (direction variant)) (snd (direction variant))
                 (URL_RE_finditer U text) m = [p]"
    using token_parts_single [OF direction_ready] by blast
  then show ?thesis
    by (simp add: result_parts_def case_prod_beta concat_singletons)
qed

lemma convert_variant_empty: "convert_variant U [] variant = Inr ([], [])"
  by (simp add: convert_variant_def TOKEN_RE_finditer_def URL_RE_finditer_def case_prod_beta)

section \<open>Tokens inside URL and email spans\<close>

lemma scenario_url_tokens:
  "TOKEN_RE_finditer (py ''Visit https://example.com/color for the color.'') =
     [(0, py ''Visit''), (5, py '' ''), (6, py ''https''), (11, py ''://''), (14, py ''example''),
      (21, py ''.''), (22, py ''com''), (25, py ''/''), (26, py ''color''), (31, py '' ''),
      (32, py ''for''), (35, py '' ''), (36, py ''the''), (39, py '' ''), (40, py ''color''),
      (45, py ''.'')]"
  by (simp add: TOKEN_RE_finditer_def py_def class_defs)

lemma scenario_url_spans:
  "URL_RE_finditer U (py ''Visit https://example.com/color for the color.'') = [(6, 31)]"
  by (simp add: url_defs py_def class_defs)

lemma scenario_url:
  "convert_variant U (py ''Visit https://example.com/color for the color.'') (py ''uk'') =
     Inr (py ''Visit https://example.com/color for the colour.'',
          [\<lparr>change_type = Spelling, change_original = py ''color'',
            change_replacement = py ''colour''\<rparr>])"
  by (simp add: eval_defs)

text \<open>
  C1. Converting "Visit https://example.com/color for the color." to \<open>uk\<close> gives
  "Visit https://example.com/color for the colour." and exactly one change, from
  "color" to "colour". For every text and variant, the result is the join of the
  result parts, one part per token match, and a token whose start offset lies inside
  a span of the URL pattern is emitted as it is, with no change recorded at its offset.
\<close>

theorem url_span_tokens_unchanged:
  "convert_variant U (py ''Visit https://example.com/color for the color.'') (py ''uk'') =
     Inr (py ''Visit https://example.com/color for the colour.'',
          [\<lparr>change_type = Spelling, change_original = py ''color'',
            change_replacement = py ''colour''\<rparr>])
   \<and> (\<exists>changes. convert_variant U text variant =
                    Inr (concat (result_parts U text variant), changes))
   \<and> length (result_parts U text variant) = length (TOKEN_RE_finditer text)
   \<and> (\<forall>i < length (TOKEN_RE_finditer text).
         in_url (URL_RE_finditer U text) (fst (TOKEN_RE_finditer text ! i)) \<longrightarrow>
           result_parts U text variant ! i = snd (TOKEN_RE_finditer text ! i)
           \<and> fst (TOKEN_RE_finditer text ! i) \<notin> fst ` set (located_changes U text variant))"
proof -
  let ?ms = "TOKEN_RE_finditer text"
  let ?sp = "URL_RE_finditer U text"
  let ?mp = "fst (direction variant)"
  let ?w = "snd (direction variant)"
  have unchanged: "result_parts U text variant ! i = snd (?ms ! i)
      \<and> fst (?ms ! i) \<notin> fst ` set (located_changes U text variant)"
    if i: "i < length ?ms" and u: "in_url ?sp (fst (?ms ! i))" for i
  proof
    obtain start token where m: "?ms ! i = (start, token)" by (cases "?ms ! i")
    from u have "token_parts U ?mp ?w ?sp (start, token) = [token]"
      by (simp add: m token_parts_in_url)
    then show "result_parts U text variant ! i = snd (?ms ! i)"
      using i by (simp add: result_parts_map m)
    have "p \<noteq> fst (?ms ! i)" if "(p, c) \<in> set (located_changes U text variant)" for p c
    proof
      assume eq: "p = fst (?ms ! i)"
      from that obtain m' where m': "m' \<in> set ?ms" "p = fst m'"
        and c: "c \<in> set (token_changes U ?mp ?w ?sp m')"
        by (auto simp: located_changes_def case_prod_beta)
      from m'(1) obtain j where j: "j < length ?ms" "?ms ! j = m'"
        by (auto simp: in_set_conv_nth)
      have "distinct (map fst ?ms)"
        unfolding TOKEN_RE_finditer_def
        by (rule strict_sorted_iff [THEN iffD1, THEN conjunct2]) (simp add: token_starts_sorted)
      with i j eq m'(2) have "j = i"
        by (metis length_map nth_eq_iff_index_eq nth_map)
      with j m have "m' = (start, token)" by simp
      with u c m show False by (simp add: token_changes_in_url)
    qed
    then show "fst (?ms ! i) \<notin> fst ` set (located_changes U text variant)"
      by force
  qed
  have parts: "\<exists>changes. convert_variant U text variant =
                    Inr (concat (result_parts U text variant), changes)"
    by (simp add: convert_variant_eq)
  have len: "length (result_parts U text variant) = length ?ms"
    by (simp add: result_parts_map)
  from scenario_url parts len unchanged show ?thesis
    by blast
qed

theorem url_span_tokens_unchanged_witness:
  "\<forall>U. 8 < length (TOKEN_RE_finditer (py ''Visit https://example.com/color for the color.''))
     \<and> TOKEN_RE_finditer (py ''Visit https://example.com/color for the color.'') ! 8
         = (26, py ''color'')
     \<and> in_url (URL_RE_finditer U (py ''Visit https://example.com/color for the color.'')) 26
     \<and> result_parts U (py ''Visit https://example.com/color for the color.'') (py ''uk'') ! 8
         = py ''color''"
proof
  fix U
  show "8 < length (TOKEN_RE_finditer (py ''Visit https://example.com/color for the color.''))
     \<and> TOKEN_RE_finditer (py ''Visit https://example.com/color for the color.'') ! 8
         = (26, py ''color'')
     \<and> in_url (URL_RE_finditer U (py ''Visit https://example.com/color for the color.'')) 26
     \<and> result_parts U (py ''Visit https://example.com/color for the color.'') (py ''uk'') ! 8
         = py ''color''"
    using url_span_tokens_unchanged
            [of U "py ''Visit https://example.com/color for the color.''" "py ''uk''"]
    by (simp add: scenario_url_tokens scenario_url_spans in_url_def)
qed

section \<open>Totality and the choice of direction\<close>

text \<open>
  C6. For every text (any code points, the empty string included), every variant
  string and every Unicode database, \<open>_convert_variant\<close> returns a result and raises
  nothing. No token is empty and no value of the selected mapping is empty, so
  \<open>_match_case\<close> returns for every token and value it can be called with. The empty
  text gives the empty text and no change.
\<close>

theorem convert_variant_total:
  "(\<exists>corrected changes. convert_variant U text variant = Inr (corrected, changes))
   \<and> (\<forall>m \<in> set (TOKEN_RE_finditer text). snd m \<noteq> [])
   \<and> (\<forall>m \<in> set (TOKEN_RE_finditer text). \<forall>v \<in> set (map snd (fst (direction variant))).
         \<exists>r. match_case U (snd m) v = Inr r)
   \<and> convert_variant U [] variant = Inr ([], [])"
proof -
  have tok: "snd m \<noteq> []" if "m \<in> set (TOKEN_RE_finditer text)" for m
    using that unfolding TOKEN_RE_finditer_def by (rule tokens_nonempty_from)
  have val: "v \<noteq> []" if "v \<in> set (map snd (fst (direction variant)))" for v
    using that direction_ready [of variant] by (auto simp: dict_ready_def)
  have "\<exists>r. match_case U (snd m) v = Inr r"
    if "m \<in> set (TOKEN_RE_finditer text)" "v \<in> set (map snd (fst (direction variant)))" for m v
    using that tok val by (intro match_case_ok) auto
  moreover have "\<exists>corrected changes. convert_variant U text variant = Inr (corrected, changes)"
    by (simp add: convert_variant_eq)
  ultimately show ?thesis
    using tok convert_variant_empty by blast
qed

theorem convert_variant_total_witness:
  "\<forall>U. (0, py ''Color'') \<in> set (TOKEN_RE_finditer (py ''Color'' @ [233, 32, 8364]))
     \<and> py ''Color'' \<noteq> []
     \<and> py ''color'' \<in> set (map snd (fst (direction (py ''de''))))
     \<and> (\<exists>r. match_case U (py ''Color'') (py ''color'') = Inr r)
     \<and> (\<exists>corrected changes.
           convert_variant U (py ''Color'' @ [233, 32, 8364]) (py ''de'') = Inr (corrected, changes))"
proof
  fix U
  have 1: "(0, py ''Color'') \<in> set (TOKEN_RE_finditer (py ''Color'' @ [233, 32, 8364]))"
    by (simp add: TOKEN_RE_finditer_def py_def class_defs)
  have 2: "py ''color'' \<in> set (map snd (fst (direction (py ''de''))))"
    by (simp add: direction_def UK_TO_US_eq US_TO_UK_items_def py_def)
  note t = convert_variant_total [of U "py ''Color'' @ [233, 32, 8364]" "py ''de''"]
  from t have 3: "\<forall>m \<in> set (TOKEN_RE_finditer (py ''Color'' @ [233, 32, 8364])).
      \<forall>v \<in> set (map snd (fst (direction (py ''de'')))). \<exists>r. match_case U (snd m) v = Inr r"
    by blast
  from 3 1 2 have 4: "\<exists>r. match_case U (py ''Color'') (py ''color'') = Inr r"
    by fastforce
  from t have 5: "\<exists>corrected changes.
      convert_variant U (py ''Color'' @ [233, 32, 8364]) (py ''de'') = Inr (corrected, changes)"
    by blast
  have 6: "py ''Color'' \<noteq> []"
    by (simp add: py_Nil)
  from 1 6 2 4 5
  show "(0, py ''Color'') \<in> set (TOKEN_RE_finditer (py ''Color'' @ [233, 32, 8364]))
     \<and> py ''Color'' \<noteq> []
     \<and> py ''color'' \<in> set (map snd (fst (direction (py ''de''))))
     \<and> (\<exists>r. match_case U (py ''Color'') (py ''color'') = Inr r)
     \<and> (\<exists>corrected changes.
           convert_variant U (py ''Color'' @ [233, 32, 8364]) (py ''de'') = Inr (corrected, changes))"
    by blast
qed

text \<open>
  C10. Every variant string other than "uk" selects the UK to US mapping: the
  conversion then returns what it returns for "us", and it returns without raising.
\<close>

theorem other_variants_convert_to_us:
  assumes "variant \<noteq> py ''uk''"
  shows "direction variant = (UK_TO_US, UK_WORDS)
     \<and> convert_variant U text variant = convert_variant U text (py ''us'')
     \<and> (\<exists>r. convert_variant U text variant = Inr r)"
proof -
  have us: "py ''us'' \<noteq> py ''uk''"
    by (simp add: inj_py)
  from assms have d: "direction variant = (UK_TO_US, UK_WORDS)"
    by (simp add: direction_def)
  from us have d': "direction (py ''us'') = (UK_TO_US, UK_WORDS)"
    by (simp add: direction_def)
  have "convert_variant U text variant = convert_variant U text (py ''us'')"
    unfolding convert_variant_def d d' ..
  moreover have "\<exists>r. convert_variant U text variant = Inr r"
    by (simp add: convert_variant_eq)
  ultimately show ?thesis using d by blast
qed

theorem other_variants_convert_to_us_witness:
  "\<forall>U. py ''UK'' \<noteq> py ''uk''
     \<and> direction (py ''UK'') = (UK_TO_US, UK_WORDS)
     \<and> convert_variant U (py ''The colour'') (py ''UK'')
         = convert_variant U (py ''The colour'') (py ''us'')
     \<and> convert_variant U (py ''The colour'') (py ''UK'')
         = Inr (py ''The color'',
                [\<lparr>change_type = Spelling, change_original = py ''colour'',
                  change_replacement = py ''color''\<rparr>])"
proof
  fix U
  have ne: "py ''UK'' \<noteq> py ''uk''"
    by (simp add: inj_py)
  have ev: "convert_variant U (py ''The colour'') (py ''UK'')
         = Inr (py ''The color'',
                [\<lparr>change_type = Spelling, change_original = py ''colour'',
                  change_replacement = py ''color''\<rparr>])"
    by (simp add: eval_defs)
  from ne ev other_variants_convert_to_us [OF ne, of U "py ''The colour''"]
  show "py ''UK'' \<noteq> py ''uk''
     \<and> direction (py ''UK'') = (UK_TO_US, UK_WORDS)
     \<and> convert_variant U (py ''The colour'') (py ''UK'')
         = convert_variant U (py ''The colour'') (py ''us'')
     \<and> convert_variant U (py ''The colour'') (py ''UK'')
         = Inr (py ''The color'',
                [\<lparr>change_type = Spelling, change_original = py ''colour'',
                  change_replacement = py ''color''\<rparr>])"
    by blast
qed

section \<open>The order of the changes\<close>

lemma located_filter:
  assumes "\<forall>m \<in> set ms. length (f m) \<le> 1"
  shows "map fst (concat (map (\<lambda>m. map (Pair (fst m)) (f m)) ms))
           = map fst (filter (\<lambda>m. f m \<noteq> []) ms)"
  using assms
proof (induction ms)
  case Nil
  then show ?case by simp
next
  case (Cons m ms)
  then have "length (f m) \<le> 1" by simp
  then have "f m = [] \<or> (\<exists>c. f m = [c])"
    by (cases "f m") (auto simp: length_Suc_conv)
  with Cons show ?case by auto
qed

lemma located_offsets_sorted:
  "sorted_wrt (<) (map fst (located_changes U text variant))"
proof -
  let ?f = "token_changes U (fst (direction variant)) (snd (direction variant))
              (URL_RE_finditer U text)"
  have "\<forall>m \<in> set (TOKEN_RE_finditer text). length (?f m) \<le> 1"
    using token_changes_short [OF direction_ready] by blast
  then have "map fst (located_changes U text variant)
               = map fst (filter (\<lambda>m. ?f m \<noteq> []) (TOKEN_RE_finditer text))"
    unfolding located_changes_def case_prod_beta Let_def by (rule located_filter)
  moreover have "sorted_wrt (<) (map fst (filter (\<lambda>m. ?f m \<noteq> []) (TOKEN_RE_finditer text)))"
    using token_starts_sorted [of 0 "text"]
    by (simp add: TOKEN_RE_finditer_def sorted_wrt_map sorted_wrt_filter)
  ultimately show ?thesis by simp
qed

lemma token_changes_original:
  "c \<in> set (token_changes U mp w sp m) \<Longrightarrow> change_original c = snd m"
  by (cases m)
     (auto simp: token_changes_def convert_token_def Let_def split: if_splits option.splits sum.splits)

lemma scenario_order:
  "convert_variant U (py ''The color is nice and the neighbor is kind.'') (py ''uk'') =
     Inr (py ''The colour is nice and the neighbour is kind.'',
          [\<lparr>change_type = Spelling, change_original = py ''color'',
            change_replacement = py ''colour''\<rparr>,
           \<lparr>change_type = Spelling, change_original = py ''neighbor'',
            change_replacement = py ''neighbour''\<rparr>])"
  by (simp add: eval_defs)

text \<open>
  C5. The returned changes are the located changes in their order. Each located
  change was recorded for the token match at its offset, and a change whose token
  starts at a smaller offset stands earlier in the list. Converting "The color is nice
  and the neighbor is kind." to \<open>uk\<close> records color to colour, then neighbor to
  neighbour.
\<close>

theorem changes_in_document_order:
  "(\<exists>corrected. convert_variant U text variant =
                   Inr (corrected, map snd (located_changes U text variant)))
   \<and> (\<forall>(p, c) \<in> set (located_changes U text variant).
         (p, change_original c) \<in> set (TOKEN_RE_finditer text))
   \<and> (\<forall>i j. i < length (located_changes U text variant)
            \<and> j < length (located_changes U text variant)
            \<and> fst (located_changes U text variant ! i) < fst (located_changes U text variant ! j)
          \<longrightarrow> i < j)
   \<and> convert_variant U (py ''The color is nice and the neighbor is kind.'') (py ''uk'') =
       Inr (py ''The colour is nice and the neighbour is kind.'',
            [\<lparr>change_type = Spelling, change_original = py ''color'',
              change_replacement = py ''colour''\<rparr>,
             \<lparr>change_type = Spelling, change_original = py ''neighbor'',
              change_replacement = py ''neighbour''\<rparr>])"
proof -
  let ?L = "located_changes U text variant"
  have a: "\<exists>corrected. convert_variant U text variant = Inr (corrected, map snd ?L)"
    by (simp add: convert_variant_eq)
  have b: "(p, change_original c) \<in> set (TOKEN_RE_finditer text)" if "(p, c) \<in> set ?L" for p c
  proof -
    from that obtain m where m: "m \<in> set (TOKEN_RE_finditer text)" "p = fst m"
      and c: "c \<in> set (token_changes U (fst (direction variant)) (snd (direction variant))
                         (URL_RE_finditer U text) m)"
      by (auto simp: located_changes_def case_prod_beta)
    from c have "change_original c = snd m" by (rule token_changes_original)
    with m show ?thesis by simp
  qed
  have c: "i < j" if "i < length ?L" "j < length ?L" "fst (?L ! i) < fst (?L ! j)" for i j
  proof (rule ccontr)
    assume "\<not> i < j"
    then have "j = i \<or> j < i" by auto
    then show False
    proof
      assume "j = i"
      with that show False by simp
    next
      assume "j < i"
      with that(1) located_offsets_sorted [of U "text" variant]
      have "map fst ?L ! j < map fst ?L ! i"
        by (simp add: sorted_wrt_iff_nth_less)
      with that \<open>j < i\<close> show False by simp
    qed
  qed
  from a b c scenario_order show ?thesis
    by blast
qed

lemma scenario_order_located:
  "located_changes U (py ''The color is nice and the neighbor is kind.'') (py ''uk'') =
     [(4, \<lparr>change_type = Spelling, change_original = py ''color'',
            change_replacement = py ''colour''\<rparr>),
      (26, \<lparr>change_type = Spelling, change_original = py ''neighbor'',
            change_replacement = py ''neighbour''\<rparr>)]"
  by (simp add: located_changes_def token_changes_def eval_defs)

theorem changes_in_document_order_witness:
  "\<forall>U. located_changes U (py ''The color is nice and the neighbor is kind.'') (py ''uk'') =
     [(4, \<lparr>change_type = Spelling, change_original = py ''color'',
            change_replacement = py ''colour''\<rparr>),
      (26, \<lparr>change_type = Spelling, change_original = py ''neighbor'',
            change_replacement = py ''neighbour''\<rparr>)]
   \<and> (4, py ''color'') \<in> set (TOKEN_RE_finditer (py ''The color is nice and the neighbor is kind.''))
   \<and> (26, py ''neighbor'') \<in> set (TOKEN_RE_finditer (py ''The color is nice and the neighbor is kind.''))
   \<and> (0::nat) < 1"
proof
  fix U
  let ?t = "py ''The color is nice and the neighbor is kind.''"
  note t = changes_in_document_order [of U ?t "py ''uk''"]
  from t have "\<forall>(p, c) \<in> set (located_changes U ?t (py ''uk'')).
         (p, change_original c) \<in> set (TOKEN_RE_finditer ?t)"
    by blast
  then have 1: "(4, py ''color'') \<in> set (TOKEN_RE_finditer ?t)"
    and 2: "(26, py ''neighbor'') \<in> set (TOKEN_RE_finditer ?t)"
    by (simp_all add: scenario_order_located)
  from t have "\<forall>i j. i < length (located_changes U ?t (py ''uk''))
            \<and> j < length (located_changes U ?t (py ''uk''))
            \<and> fst (located_changes U ?t (py ''uk'') ! i) < fst (located_changes U ?t (py ''uk'') ! j)
          \<longrightarrow> i < j"
    by blast
  then have 3: "(0::nat) < 1"
    by (simp add: scenario_order_located)
  from scenario_order_located [of U] 1 2 3
  show "located_changes U ?t (py ''uk'') =
     [(4, \<lparr>change_type = Spelling, change_original = py ''color'',
            change_replacement = py ''colour''\<rparr>),
      (26, \<lparr>change_type = Spelling, change_original = py ''neighbor'',
            change_replacement = py ''neighbour''\<rparr>)]
   \<and> (4, py ''color'') \<in> set (TOKEN_RE_finditer ?t)
   \<and> (26, py ''neighbor'') \<in> set (TOKEN_RE_finditer ?t)
   \<and> (0::nat) < 1"
    by blast
qed

section \<open>Case projection and the reverse table\<close>

subsection \<open>Case projection\<close>

lemma ascii_letter_cases:
  "ascii_letter c \<Longrightarrow> is_ascii c \<and> (ascii_upper c \<longleftrightarrow> \<not> ascii_lower c)"
  by (auto simp: ascii_letter_def is_ascii_def ascii_upper_def ascii_lower_def)

lemma str_isupper_letters:
  assumes "s \<noteq> []" "list_all ascii_letter s"
  shows "str_isupper U s \<longleftrightarrow> list_all ascii_upper s"
proof -
  have low: "list_all (\<lambda>c. \<not> (cp_islower U c \<or> cp_istitle U c)) s \<longleftrightarrow> list_all ascii_upper s"
    using assms(2) by (induction s) (auto simp: cp_islower_def cp_istitle_def dest: ascii_letter_cases)
  have up: "list_all ascii_upper s \<Longrightarrow> list_ex (cp_isupper U) s"
    using assms by (cases s) (auto simp: cp_isupper_def dest: ascii_letter_cases)
  show ?thesis
  proof (cases s)
    case Nil
    with assms show ?thesis by simp
  next
    case (Cons c t)
    show ?thesis
    proof (cases t)
      case Nil
      with Cons assms show ?thesis
        by (auto simp: str_isupper_def cp_isupper_def dest: ascii_letter_cases)
    next
      case (Cons d t')
      with \<open>s = c # t\<close> have "str_isupper U s
          \<longleftrightarrow> list_all (\<lambda>c. \<not> (cp_islower U c \<or> cp_istitle U c)) s \<and> list_ex (cp_isupper U) s"
        by (simp add: str_isupper_def)
      with low up show ?thesis by blast
    qed
  qed
qed

lemma match_case_letters:
  assumes "original \<noteq> []" "list_all ascii_letter original" "replacement \<noteq> []"
  shows "match_case U original replacement = Inr (spec_case_projection U original replacement)"
proof -
  obtain o0 os where o: "original = o0 # os" using assms(1) by (cases original) auto
  obtain r0 rs where r: "replacement = r0 # rs" using assms(3) by (cases replacement) auto
  from assms(2) o have "ascii_letter o0" by simp
  then have first: "str_isupper U [o0] \<longleftrightarrow> ascii_upper o0"
    using str_isupper_letters [of "[o0]" U] by simp
  show ?thesis
    using str_isupper_letters [OF assms(1,2), of U] first
    by (simp add: match_case_def spec_case_projection_def o r)
qed

lemma scenario_case_upper:
  "convert_variant U (py ''COLOR'') (py ''uk'') =
     Inr (py ''COLOUR'', [\<lparr>change_type = Spelling, change_original = py ''COLOR'',
                            change_replacement = py ''COLOUR''\<rparr>])"
  by (simp add: eval_defs)

lemma scenario_case_title:
  "convert_variant U (py ''Color'') (py ''uk'') =
     Inr (py ''Colour'', [\<lparr>change_type = Spelling, change_original = py ''Color'',
                            change_replacement = py ''Colour''\<rparr>])"
  by (simp add: eval_defs)

lemma scenario_case_lower:
  "convert_variant U (py ''color'') (py ''uk'') =
     Inr (py ''colour'', [\<lparr>change_type = Spelling, change_original = py ''color'',
                            change_replacement = py ''colour''\<rparr>])"
  by (simp add: eval_defs)

text \<open>
  C3. For every non-empty original token of ASCII letters and every non-empty
  replacement, \<open>_match_case\<close> returns the casing rule of the spec: the replacement
  uppercased when every character of the original is uppercase, else the replacement
  with only its first character uppercased when the first character of the original
  is uppercase, else the replacement unchanged. Converted to \<open>uk\<close>, "COLOR" becomes
  "COLOUR", "Color" becomes "Colour" and "color" becomes "colour".
\<close>

theorem match_case_three_rules:
  "(original \<noteq> [] \<and> list_all ascii_letter original \<and> replacement \<noteq> [] \<longrightarrow>
      match_case U original replacement = Inr (spec_case_projection U original replacement))
   \<and> convert_variant U (py ''COLOR'') (py ''uk'') =
       Inr (py ''COLOUR'', [\<lparr>change_type = Spelling, change_original = py ''COLOR'',
                              change_replacement = py ''COLOUR''\<rparr>])
   \<and> convert_variant U (py ''Color'') (py ''uk'') =
       Inr (py ''Colour'', [\<lparr>change_type = Spelling, change_original = py ''Color'',
                              change_replacement = py ''Colour''\<rparr>])
   \<and> convert_variant U (py ''color'') (py ''uk'') =
       Inr (py ''colour'', [\<lparr>change_type = Spelling, change_original = py ''color'',
                              change_replacement = py ''colour''\<rparr>])"
  using match_case_letters [of original replacement U]
        scenario_case_upper [of U] scenario_case_title [of U] scenario_case_lower [of U]
  by blast

theorem match_case_three_rules_witness:
  "\<forall>U. py ''Color'' \<noteq> [] \<and> list_all ascii_letter (py ''Color'') \<and> py ''colour'' \<noteq> []
     \<and> match_case U (py ''Color'') (py ''colour'') = Inr (py ''Colour'')
     \<and> match_case U (py ''COLOR'') (py ''colour'') = Inr (py ''COLOUR'')
     \<and> match_case U (py ''cOLOR'') (py ''colour'') = Inr (py ''colour'')"
proof
  fix U
  have h: "py s \<noteq> [] \<and> list_all ascii_letter (py s) \<and> py ''colour'' \<noteq> []"
    if "s = ''Color'' \<or> s = ''COLOR'' \<or> s = ''cOLOR''" for s
    using that by (auto simp: py_def class_defs)
  have 1: "match_case U (py ''Color'') (py ''colour'') = Inr (py ''Colour'')"
    using match_case_three_rules [of "py ''Color''" "py ''colour''" U] h [of "''Color''"]
    by (simp add: spec_case_projection_def str_upper_def py_def class_defs)
  have 2: "match_case U (py ''COLOR'') (py ''colour'') = Inr (py ''COLOUR'')"
    using match_case_three_rules [of "py ''COLOR''" "py ''colour''" U] h [of "''COLOR''"]
    by (simp add: spec_case_projection_def str_upper_def py_def class_defs)
  have 3: "match_case U (py ''cOLOR'') (py ''colour'') = Inr (py ''colour'')"
    using match_case_three_rules [of "py ''cOLOR''" "py ''colour''" U] h [of "''cOLOR''"]
    by (simp add: spec_case_projection_def str_upper_def py_def class_defs)
  from h [of "''Color''"] 1 2 3
  show "py ''Color'' \<noteq> [] \<and> list_all ascii_letter (py ''Color'') \<and> py ''colour'' \<noteq> []
     \<and> match_case U (py ''Color'') (py ''colour'') = Inr (py ''Colour'')
     \<and> match_case U (py ''COLOR'') (py ''colour'') = Inr (py ''COLOUR'')
     \<and> match_case U (py ''cOLOR'') (py ''colour'') = Inr (py ''colour'')"
    by blast
qed

subsection \<open>The reverse table\<close>

lemma map_of_dict_setitem: "map_of (dict_setitem d k v) = (map_of d)(k \<mapsto> v)"
  by (induction d k v rule: dict_setitem.induct) (auto simp: fun_eq_iff)

lemma map_of_invert_fold:
  "map_of (foldl (\<lambda>r (k, v). dict_setitem r v k) acc d)
     = map_of acc ++ map_of (rev (map (\<lambda>(k, v). (v, k)) d))"
proof (induction d arbitrary: acc)
  case Nil
  then show ?case by simp
next
  case (Cons x d)
  obtain k v where x: "x = (k, v)" by (cases x)
  let ?M = "map_of (rev (map (\<lambda>(k, v). (v, k)) d))"
  have assoc: "(map_of acc)(v \<mapsto> k) ++ m = map_of acc ++ ([v \<mapsto> k] ++ m)"
    for m :: "pystr \<rightharpoonup> pystr"
    by (auto simp: fun_eq_iff map_add_def split: option.splits)
  have "map_of (foldl (\<lambda>r (k, v). dict_setitem r v k) acc (x # d))
          = map_of (foldl (\<lambda>r (k, v). dict_setitem r v k) (dict_setitem acc v k) d)"
    by (simp add: x)
  also have "\<dots> = map_of (dict_setitem acc v k) ++ ?M"
    by (rule Cons.IH)
  also have "\<dots> = (map_of acc)(v \<mapsto> k) ++ ?M"
    by (simp only: map_of_dict_setitem)
  also have "\<dots> = map_of acc ++ ([v \<mapsto> k] ++ ?M)"
    by (rule assoc)
  also have "[v \<mapsto> k] ++ ?M = map_of (rev (map (\<lambda>(k, v). (v, k)) (x # d)))"
    by (simp add: x)
  finally show ?case .
qed

lemma map_of_invert_dict:
  "map_of (invert_dict d) = map_of (rev (map (\<lambda>(k, v). (v, k)) d))"
  unfolding invert_dict_def by (simp add: map_of_invert_fold)

lemma US_TO_UK_values_distinct: "distinct (map snd US_TO_UK)"
proof -
  have eq: "map snd (map (\<lambda>(k, v). (py k, py v)) xs) = map py (map snd xs)" for xs
    by (induction xs) auto
  show ?thesis
    unfolding US_TO_UK_eq eq by (rule distinct_map_py [OF items_values_distinct])
qed


lemma UK_TO_US_swap: "UK_TO_US = map (\<lambda>(k, v). (v, k)) US_TO_UK"
  unfolding UK_TO_US_def by (rule invert_dict_distinct [OF US_TO_UK_values_distinct])

text \<open>
  C7, as the code has it. Building the reverse table never fails, for any forward
  table. A reverse key gets the key of the last forward item with that value, so of two
  forward items with one value the later one wins silently. The forward table of the
  source has pairwise distinct values: its reverse table is its exact inverse.
\<close>

theorem reverse_table_never_fails:
  "build_reverse_table forward = Inr (invert_dict forward)
   \<and> map_of (invert_dict forward) v = map_of (rev (map (\<lambda>(k, v). (v, k)) forward)) v
   \<and> distinct (map snd US_TO_UK)
   \<and> build_reverse_table US_TO_UK = Inr UK_TO_US
   \<and> UK_TO_US = map (\<lambda>(k, v). (v, k)) US_TO_UK"
  using US_TO_UK_values_distinct UK_TO_US_swap
  by (simp add: build_reverse_table_def map_of_invert_dict UK_TO_US_def)

text \<open>
  The claim of C7 fails: a forward table with two keys for one value is inverted
  without an error, and the reverse table keeps the later key only.
\<close>

theorem reverse_table_duplicate_counterexample:
  "\<not> distinct (map snd [(py ''disk'', py ''disc''), (py ''disc'', py ''disc'')])
   \<and> build_reverse_table [(py ''disk'', py ''disc''), (py ''disc'', py ''disc'')]
       = Inr [(py ''disc'', py ''disc'')]"
  by (simp add: build_reverse_table_def invert_dict_def)

section \<open>Self-mapped words and the round trip\<close>

lemma items_self_mapped:
  "\<forall>(k, v) \<in> set US_TO_UK_items. (v = k) = (k = ''programmed'')"
  unfolding US_TO_UK_items_def by simp

lemma US_TO_UK_lookup_items:
  "map_of US_TO_UK k = Some v \<Longrightarrow> \<exists>(k0, v0) \<in> set US_TO_UK_items. k = py k0 \<and> v = py v0"
  by (force simp: US_TO_UK_eq dest!: map_of_SomeD)

text \<open>
  C8, as the code has it. A key of the forward table maps to itself exactly when the
  key is "programmed"; every other key maps to a different word.
\<close>

theorem forward_table_self_mapping:
  "map_of US_TO_UK k = Some v \<Longrightarrow> (v = k) = (k = py ''programmed'')"
proof -
  assume "map_of US_TO_UK k = Some v"
  then obtain k0 v0 where i: "(k0, v0) \<in> set US_TO_UK_items" and k: "k = py k0" and v: "v = py v0"
    by (auto dest!: US_TO_UK_lookup_items)
  from i items_self_mapped have "(v0 = k0) = (k0 = ''programmed'')" by blast
  then show ?thesis by (simp add: k v inj_py)
qed

theorem forward_table_self_mapping_witness:
  "map_of US_TO_UK (py ''color'') = Some (py ''colour'') \<and> py ''colour'' \<noteq> py ''color''
   \<and> py ''color'' \<noteq> py ''programmed''"
proof -
  have 1: "map_of US_TO_UK (py ''color'') = Some (py ''colour'')"
    by (simp add: US_TO_UK_eq US_TO_UK_items_def py_def)
  have 2: "py ''color'' \<noteq> py ''programmed''"
    by (simp add: inj_py)
  from forward_table_self_mapping [OF 1] 2 have "py ''colour'' \<noteq> py ''color''"
    by simp
  with 1 2 show ?thesis by blast
qed

text \<open>
  The claim of C8 fails: the forward table stores "programmed" with itself as value.
\<close>

theorem forward_table_programmed_counterexample:
  "map_of US_TO_UK (py ''programmed'') = Some (py ''programmed'')"
  by (simp add: US_TO_UK_eq US_TO_UK_items_def py_def)

text \<open>
  C9. A word of the forward table whose forward image is a different word comes
  back: looked up in the mapping for \<open>uk\<close> and its image then looked up in the
  mapping for \<open>us\<close>, the result is the word itself.
\<close>

theorem round_trip_distinct_spellings:
  "map_of (fst (direction (py ''uk''))) w = Some v \<Longrightarrow> v \<noteq> w \<Longrightarrow>
     map_of (fst (direction (py ''us''))) v = Some w"
proof -
  assume "map_of (fst (direction (py ''uk''))) w = Some v"
  then have "map_of US_TO_UK w = Some v"
    by (simp add: direction_def)
  then have "(w, v) \<in> set US_TO_UK"
    by (rule map_of_SomeD)
  then have mem: "(v, w) \<in> set UK_TO_US"
    by (force simp: UK_TO_US_swap)
  have "map fst UK_TO_US = map snd US_TO_UK"
    by (simp add: UK_TO_US_swap case_prod_beta)
  then have dk: "distinct (map fst UK_TO_US)"
    using US_TO_UK_values_distinct by simp
  from dk mem have "map_of UK_TO_US v = Some w"
    by (rule map_of_is_SomeI)
  moreover have "py ''us'' \<noteq> py ''uk''"
    by (simp add: inj_py)
  ultimately show ?thesis
    by (simp add: direction_def)
qed

theorem round_trip_distinct_spellings_witness:
  "map_of (fst (direction (py ''uk''))) (py ''color'') = Some (py ''colour'')
   \<and> py ''colour'' \<noteq> py ''color''
   \<and> map_of (fst (direction (py ''us''))) (py ''colour'') = Some (py ''color'')"
proof -
  have 1: "map_of (fst (direction (py ''uk''))) (py ''color'') = Some (py ''colour'')"
    by (simp add: direction_def US_TO_UK_eq US_TO_UK_items_def py_def)
  have 2: "py ''colour'' \<noteq> py ''color''"
    by (simp add: inj_py)
  from round_trip_distinct_spellings [OF 1 2] 1 2 show ?thesis
    by blast
qed

section \<open>The URL pattern: results, lengths and the mask\<close>





lemma plus_class_Some_iff:
  "plus_class P s = Some r \<longleftrightarrow> s \<noteq> [] \<and> P (hd s) \<and> r = dropWhile P s"
  by (cases s) (auto simp: plus_class_def)

lemma plus_class_None_iff:
  "plus_class P s = None \<longleftrightarrow> s = [] \<or> \<not> P (hd s)"
  by (cases s) (auto simp: plus_class_def)



















section \<open>A literal and a class before a word\<close>








section \<open>The URL alternatives around a word\<close>


lemma blockwiseE:
  assumes "blockwise f a b"
  obtains res where "residue_of a b res" "\<And>t. inert t \<Longrightarrow> f (a @ t @ b) = residue_result t b res"
  using assms unfolding blockwise_def by blast














section \<open>The email domain around a word\<close>







section \<open>The whole pattern around a word\<close>







section \<open>The mask around a word\<close>


section \<open>Token texts and their flags\<close>


lemma homogeneous_run:
  "homogeneous (c # takeWhile (\<lambda>x. ascii_letter x = ascii_letter c) s)"
  by (cases "ascii_letter c") (auto simp: homogeneous_def list_all_iff dest: set_takeWhileD)










section \<open>Idempotence of the conversion\<close>

subsection \<open>The words of the tables\<close>


subsection \<open>Case and letters\<close>


lemma letter_char: "ascii_letter c \<Longrightarrow> is_ascii c \<and> ascii_letter (ascii_tolower c)"
  by (auto simp: ascii_lower_def ascii_upper_def ascii_letter_def ascii_tolower_def is_ascii_def)



lemma str_isalpha_letters: "s \<noteq> [] \<Longrightarrow> list_all ascii_letter s \<Longrightarrow> str_isalpha U s"
  by (auto simp: str_isalpha_def cp_isalpha_def list_all_iff dest: letter_char)







subsection \<open>One token, converted twice\<close>







subsection \<open>The flags of the token matches\<close>




subsection \<open>The whole text, converted twice\<close>







subsection \<open>The tables are stable\<close>











subsection \<open>No-op suppression\<close>







end
